theory Spec2Isabelle
  imports Main "HOL-Library.AList" "HOL-Library.Sublist" "HOL-Library.Word"
begin

unbundle bit_operations_syntax

section \<open>Values, exceptions and printed lines\<close>

text \<open>
  The program is dynamically typed: the lists \<open>depends_on\<close> and \<open>selects\<close> of a
  \<open>Symbol\<close> hold names (\<open>str\<close>) after parsing and, after \<open>resolve_symbols\<close>, the
  \<open>Symbol\<close> objects themselves or \<open>None\<close>. A value is therefore one of

  \<^item> \<open>Str n\<close>: the string \<open>n\<close>;
  \<^item> \<open>Obj k\<close>: a reference to the \<open>Symbol\<close> object stored in \<open>Symbol.all_symbols\<close>
    under the key \<open>k\<close>. Every \<open>Symbol\<close> registers itself under its own name in
    \<open>__init__\<close>, nothing else keeps a \<open>Symbol\<close> (\<open>menu is Menu\<close> compares an instance
    with the class and is false, so \<open>Menu.add_symbol\<close> never runs), and resolution
    and selection run after all parsing, so the key identifies the object;
  \<^item> \<open>PyNone\<close>: \<open>None\<close>;
  \<^item> \<open>BoundMethod k m\<close>: the bound method \<open>m\<close> of the object \<open>k\<close>, which is what the
    expression \<open>self.name\<close> (written without a call) evaluates to.

  Python's \<open>==\<close> on these values is HOL's equality: strings compare by content,
  objects by identity (\<open>Symbol\<close> defines no \<open>__eq__\<close>), and values of different kinds
  are unequal.
\<close>

datatype pyval = Str string | Obj string | PyNone | BoundMethod string string

text \<open>
  \<open>AttributeError\<close>, \<open>IndexError\<close> and \<open>RuntimeError\<close> are Python's; the last is what the
  interpreter raises (\<open>maximum recursion depth exceeded\<close>) when a call would nest
  deeper than its recursion limit. \<open>NoSuchObject\<close> is not a Python exception: it is
  the model's answer when a reference \<open>Obj k\<close> names no entry of the table, which the
  program cannot produce (entries are never removed).
\<close>

datatype exn = AttributeError | IndexError | RuntimeError | NoSuchObject

text \<open>
  What the program prints on standard output. \<open>TokError msg\<close> is \<open>Tokenizer.error(msg)\<close>
  and \<open>SymError k msg\<close> is \<open>Symbol.error(msg)\<close> of the symbol \<open>k\<close> (the file name and
  line number that prefix the message are not modelled, and \<open>msg\<close> is the message
  after its opening \<open>config '%s'\<close>); \<open>NotFound v\<close> is the line
  \<open>Error: Config '<v>' cannot found\<close> of \<open>Symbol.get_symbol\<close>.
\<close>

datatype printed = TokError string | SymError string string | NotFound pyval

section \<open>The tokenizer\<close>

text \<open>
  \<open>Tokenizer\<close> wraps a \<open>shlex\<close> lexer. The lexer is modelled by its deque
  \<open>lexer.pushback\<close>, front first, and by the tokens it will still read from its input
  (\<open>stream\<close>). \<open>shlex.get_token\<close> takes the front of \<open>pushback\<close> when there is one and
  reads the input otherwise; at the end of the input it returns the empty string.

  Reading a word, \<open>shlex\<close> also reads the character after it. When that character is
  white space it is dropped. When it is not (the newline, which this tokenizer does
  not count as white space, or another punctuation character) it is a token of its
  own, and \<open>shlex\<close> puts it at the front of the same deque (\<open>pushback.appendleft\<close>).
  An entry of \<open>stream\<close> is therefore a token together with the one-character token
  that ended it, if any; a quoted string, a punctuation character and the last word
  of the input are ended by none.

  \<open>Tokenizer.put_token\<close> puts its token at the back of the deque
  (\<open>pushback.append\<close>), behind what the lexer has put there.
\<close>

record Tokenizer =
  pushback :: "string list"
  stream :: "(string \<times> string option) list"
  curr_token :: string

definition get_token :: "Tokenizer \<Rightarrow> string \<times> Tokenizer" where
  "get_token tk =
     (case pushback tk of
        t # ts \<Rightarrow> (t, tk\<lparr>pushback := ts, curr_token := t\<rparr>)
      | [] \<Rightarrow>
          (case stream tk of
             (t, ended_by) # ts \<Rightarrow>
               (t, tk\<lparr>pushback := (case ended_by of
                                      None \<Rightarrow> pushback tk
                                    | Some c \<Rightarrow> c # pushback tk),
                       stream := ts, curr_token := t\<rparr>)
           | [] \<Rightarrow> ([], tk\<lparr>curr_token := []\<rparr>)))"

definition put_token :: "Tokenizer \<Rightarrow> string option \<Rightarrow> Tokenizer" where
  "put_token tk tok =
     (let t = (case tok of None \<Rightarrow> curr_token tk | Some t' \<Rightarrow> t')
      in tk\<lparr>pushback := pushback tk @ [t]\<rparr>)"

section \<open>Symbols and the symbol table\<close>

text \<open>
  The fields of \<open>Symbol\<close> that the program reads. \<open>options\<close> and \<open>parent\<close> are written
  once in \<open>__init__\<close> and never read; they are left out. The field \<open>type\<close> is called
  \<open>kind\<close> here.
\<close>

record Symbol =
  symbol :: string
  selects :: "pyval list"
  depends_on :: "pyval list"
  prompt :: "string option"
  is_selected :: bool
  is_selectable :: bool
  is_default :: bool
  dependants :: "pyval list"
  kind :: "string option"
  lineno :: nat
  defined_at :: string

text \<open>
  The fields as \<open>Symbol.__init__\<close> sets them, for the symbol named \<open>name\<close> declared at
  line \<open>line\<close> of \<open>file\<close>.
\<close>

definition new_Symbol :: "string \<Rightarrow> nat \<Rightarrow> string \<Rightarrow> Symbol" where
  "new_Symbol name line file =
     \<lparr>symbol = name, selects = [], depends_on = [], prompt = None, is_selected = False,
      is_selectable = False, is_default = False, dependants = [], kind = None,
      lineno = line, defined_at = file\<rparr>"

text \<open>
  The global state after parsing: the class attributes \<open>Symbol.all_symbols\<close> and
  \<open>Menu.main_menu_name\<close>, and what has been printed. The dictionary is the list of
  its items in the order a \<open>for\<close> loop over it yields them; no function that works on
  the state adds or removes a key, so that order is fixed. How the order comes about
  while the symbols are declared is the subject of the next section.
\<close>

record state =
  all_symbols :: "(string \<times> Symbol) list"
  main_menu_name :: string
  stdout :: "printed list"

definition lookup :: "state \<Rightarrow> string \<Rightarrow> Symbol option" where
  "lookup s k = map_of (all_symbols s) k"

text \<open>Mutation of the object stored under \<open>k\<close>; every reference to it sees the change.\<close>

definition modify :: "string \<Rightarrow> (Symbol \<Rightarrow> Symbol) \<Rightarrow> state \<Rightarrow> state" where
  "modify k f s = s\<lparr>all_symbols := AList.map_entry k f (all_symbols s)\<rparr>"

definition py_print :: "printed \<Rightarrow> state \<Rightarrow> state" where
  "py_print p s = s\<lparr>stdout := stdout s @ [p]\<rparr>"

text \<open>Reading an attribute of \<open>Symbol\<close> from a value: only an object has it.\<close>

definition deref :: "state \<Rightarrow> pyval \<Rightarrow> exn + Symbol" where
  "deref s v =
     (case v of
        Obj k \<Rightarrow> (case lookup s k of Some a \<Rightarrow> Inr a | None \<Rightarrow> Inl NoSuchObject)
      | _ \<Rightarrow> Inl AttributeError)"

definition make_default :: "Symbol \<Rightarrow> bool \<Rightarrow> Symbol" where
  "make_default symb df = symb\<lparr>is_default := df\<rparr>"

definition add_dependant :: "Symbol \<Rightarrow> pyval \<Rightarrow> Symbol" where
  "add_dependant symb dep = symb\<lparr>dependants := dependants symb @ [dep]\<rparr>"

definition make_selectable :: "Symbol \<Rightarrow> bool \<Rightarrow> Symbol" where
  "make_selectable symb sel = symb\<lparr>is_selectable := sel\<rparr>"

definition deselect :: "Symbol \<Rightarrow> Symbol" where
  "deselect symb = symb\<lparr>is_selected := False\<rparr>"

definition get_dependencies :: "Symbol \<Rightarrow> pyval list" where
  "get_dependencies symb = depends_on symb"

text \<open>
  \<open>Symbol.get_symbol\<close>: the dictionary lookup; a \<open>KeyError\<close> is caught, a line is
  printed and the function falls off its end, returning \<open>None\<close>. The keys of the
  dictionary are strings, so any other value is a missing key.
\<close>

definition get_symbol :: "pyval \<Rightarrow> state \<Rightarrow> pyval \<times> state" where
  "get_symbol sym_name s =
     (case sym_name of
        Str n \<Rightarrow>
          (case lookup s n of
             Some a \<Rightarrow> (Obj n, s)
           | None \<Rightarrow> (PyNone, py_print (NotFound sym_name) s))
      | _ \<Rightarrow> (PyNone, py_print (NotFound sym_name) s))"

section \<open>The dictionary of Python 2\<close>












section \<open>Option parsing\<close>

text \<open>\<open>s.strip(chars)\<close>: drop the leading and the trailing characters that are in \<open>chars\<close>.\<close>

definition strip :: "string \<Rightarrow> string \<Rightarrow> string" where
  "strip chars s = rev (dropWhile (\<lambda>c. c \<in> set chars) (rev (dropWhile (\<lambda>c. c \<in> set chars) s)))"

definition apostrophe :: char where
  "apostrophe = CHR 0x27"

definition quotation :: char where
  "quotation = CHR 0x22"

text \<open>
  \<open>Option.parse_string(tk, s)\<close>. \<open>s[0]\<close> raises \<open>IndexError\<close> on the empty string (the
  token at the end of the input); \<open>s[len(s)-1]\<close> is then the last character.
\<close>

definition parse_string ::
  "Tokenizer \<Rightarrow> printed list \<Rightarrow> string \<Rightarrow> exn + (string \<times> Tokenizer \<times> printed list)" where
  "parse_string tk out s =
     (case s of
        [] \<Rightarrow> Inl IndexError
      | c # _ \<Rightarrow>
          if c \<noteq> apostrophe \<and> c \<noteq> quotation then
            Inr ([], put_token tk None,
                 out @ [TokError ''String must start with an apostrophe or a quotation''])
          else
            let plen = length s - 1 in
            if s ! plen \<noteq> apostrophe \<and> s ! plen \<noteq> quotation then
              Inr ([], put_token tk None,
                   out @ [TokError ''String must end with an apostrophe or a quotation''])
            else Inr (strip [quotation, apostrophe] s, tk, out))"

text \<open>\<open>Option.parse_default(tk, sym)\<close>; the source's \<open>sym\<close> is written \<open>symb\<close>.\<close>

definition parse_default ::
  "Tokenizer \<Rightarrow> printed list \<Rightarrow> Symbol \<Rightarrow> Tokenizer \<times> printed list \<times> Symbol" where
  "parse_default tk out symb =
     (let (tok, tk1) = get_token tk in
      if tok = ''y'' then (tk1, out, make_default symb True)
      else if tok = ''n'' then (tk1, out, make_default symb False)
      else (tk1, out @ [TokError ''You can only use 'y' or 'n' for default''], symb))"

section \<open>Selection\<close>

text \<open>
  The loop \<open>for dep in self.depends_on: if not dep.is_selected: return\<close>, which
  \<open>select\<close> runs twice. \<open>Inr True\<close>: the loop returned from \<open>select\<close>; \<open>Inr False\<close>: it
  ran to its end; \<open>Inl e\<close>: reading \<open>dep.is_selected\<close> raised.
\<close>

fun unmet_dependency :: "state \<Rightarrow> pyval list \<Rightarrow> exn + bool" where
  "unmet_dependency s [] = Inr False"
| "unmet_dependency s (dep # deps) =
     (case deref s dep of
        Inl e \<Rightarrow> Inl e
      | Inr d \<Rightarrow> if \<not> is_selected d then Inr True else unmet_dependency s deps)"

text \<open>
  The loop \<open>for dep in self.dependants: dep.make_selectable()\<close>. A result pairs the
  exception that ended the loop, if any, with the state reached.
\<close>

fun notify_dependants :: "pyval list \<Rightarrow> state \<Rightarrow> exn option \<times> state" where
  "notify_dependants [] s = (None, s)"
| "notify_dependants (dep # deps) s =
     (case deref s dep of
        Inl e \<Rightarrow> (Some e, s)
      | Inr d \<Rightarrow>
          (case dep of
             Obj k \<Rightarrow> notify_dependants deps (modify k (\<lambda>x. make_selectable x True) s)
           | _ \<Rightarrow> (Some AttributeError, s)))"

text \<open>
  The loop \<open>for sel in self.selects: if sel != None: sel.select()\<close>, over the method
  \<open>call\<close> it invokes. An exception raised by a call ends the loop.
\<close>

fun for_selects ::
  "(string \<Rightarrow> state \<Rightarrow> exn option \<times> state) \<Rightarrow> pyval list \<Rightarrow> state \<Rightarrow> exn option \<times> state" where
  "for_selects call [] s = (None, s)"
| "for_selects call (sel # sels) s =
     (if sel \<noteq> PyNone then
        (case sel of
           Obj k \<Rightarrow>
             (case call k s of
                (Some e, s') \<Rightarrow> (Some e, s')
              | (None, s') \<Rightarrow> for_selects call sels s')
         | _ \<Rightarrow> (Some AttributeError, s))
      else for_selects call sels s)"

text \<open>
  \<open>Symbol.select\<close> of the object stored under \<open>self\<close>. The recursion through \<open>selects\<close>
  has no cycle guard; what ends it on a cycle is the interpreter's recursion limit.
  \<open>depth\<close> is the number of activations of \<open>select\<close>, nested in one another, for which
  the limit still has room when the call is made: with no room left the call raises
  \<open>RuntimeError\<close> before its body runs, and the exception passes through the callers,
  none of which catches it. What the activations on the way have assigned stays
  assigned. Only \<open>select\<close> recurses; the frames of the other methods, which nest one
  level and return, are taken to fit.
\<close>

primrec select :: "nat \<Rightarrow> string \<Rightarrow> state \<Rightarrow> exn option \<times> state" where
  "select 0 self s = (Some RuntimeError, s)"
| "select (Suc depth) self s =
     (case lookup s self of
        None \<Rightarrow> (Some NoSuchObject, s)
      | Some a \<Rightarrow>
          (case unmet_dependency s (depends_on a) of
             Inl e \<Rightarrow> (Some e, s)
           | Inr True \<Rightarrow> (None, s)
           | Inr False \<Rightarrow>
               (case notify_dependants (dependants a) s of
                  (Some e, s1) \<Rightarrow> (Some e, s1)
                | (None, s1) \<Rightarrow>
                    (case lookup s1 self of
                       None \<Rightarrow> (Some NoSuchObject, s1)
                     | Some a1 \<Rightarrow>
                         (case unmet_dependency s1 (depends_on a1) of
                            Inl e \<Rightarrow> (Some e, s1)
                          | Inr True \<Rightarrow> (None, s1)
                          | Inr False \<Rightarrow>
                              for_selects (select depth) (selects a1)
                                (modify self (\<lambda>x. x\<lparr>is_selected := True\<rparr>) s1))))))"

text \<open>The method call \<open>v.select()\<close> on a value: only an object has the method.\<close>

definition call_select :: "nat \<Rightarrow> pyval \<Rightarrow> state \<Rightarrow> exn option \<times> state" where
  "call_select depth v s =
     (case v of Obj k \<Rightarrow> select depth k s | _ \<Rightarrow> (Some AttributeError, s))"

text \<open>\<open>select_configs(clist)\<close>: \<open>Symbol.get_symbol(cname).select()\<close> for each name.\<close>

fun select_configs :: "nat \<Rightarrow> string list \<Rightarrow> state \<Rightarrow> exn option \<times> state" where
  "select_configs depth [] s = (None, s)"
| "select_configs depth (cname # clist) s =
     (case get_symbol (Str cname) s of
        (v, s1) \<Rightarrow>
          (case call_select depth v s1 of
             (Some e, s') \<Rightarrow> (Some e, s')
           | (None, s') \<Rightarrow> select_configs depth clist s'))"

text \<open>
  \<open>select_defaults()\<close>: \<open>for name, sym in ...iteritems(): if sym.is_default: sym.select()\<close>.
  The loop runs over the keys; each object is read when its turn comes.
\<close>

fun select_defaults_loop :: "nat \<Rightarrow> string list \<Rightarrow> state \<Rightarrow> exn option \<times> state" where
  "select_defaults_loop depth [] s = (None, s)"
| "select_defaults_loop depth (name # names) s =
     (case lookup s name of
        None \<Rightarrow> (Some NoSuchObject, s)
      | Some symb \<Rightarrow>
          if is_default symb then
            (case select depth name s of
               (Some e, s') \<Rightarrow> (Some e, s')
             | (None, s') \<Rightarrow> select_defaults_loop depth names s')
          else select_defaults_loop depth names s)"

definition select_defaults :: "nat \<Rightarrow> state \<Rightarrow> exn option \<times> state" where
  "select_defaults depth s = select_defaults_loop depth (map fst (all_symbols s)) s"

section \<open>Dependency fixup\<close>

text \<open>
  \<open>fix_dependencies_for(sym, deplist)\<close>: \<open>for dep in deplist: if not dep.is_selected:
  dep.deselect()\<close>. The body does not use its parameter \<open>sym\<close> (here \<open>symb\<close>).
\<close>

fun fix_dependencies_for :: "string \<Rightarrow> pyval list \<Rightarrow> state \<Rightarrow> exn option \<times> state" where
  "fix_dependencies_for symb [] s = (None, s)"
| "fix_dependencies_for symb (dep # deplist) s =
     (case deref s dep of
        Inl e \<Rightarrow> (Some e, s)
      | Inr d \<Rightarrow>
          if \<not> is_selected d then
            (case dep of
               Obj k \<Rightarrow> fix_dependencies_for symb deplist (modify k deselect s)
             | _ \<Rightarrow> (Some AttributeError, s))
          else fix_dependencies_for symb deplist s)"

fun fix_dependencies_loop :: "string list \<Rightarrow> state \<Rightarrow> exn option \<times> state" where
  "fix_dependencies_loop [] s = (None, s)"
| "fix_dependencies_loop (name # names) s =
     (case lookup s name of
        None \<Rightarrow> (Some NoSuchObject, s)
      | Some symb \<Rightarrow>
          let deps = get_dependencies symb in
          if deps \<noteq> [] then
            (case fix_dependencies_for name deps s of
               (Some e, s') \<Rightarrow> (Some e, s')
             | (None, s') \<Rightarrow> fix_dependencies_loop names s')
          else fix_dependencies_loop names s)"

definition fix_dependencies :: "state \<Rightarrow> exn option \<times> state" where
  "fix_dependencies s = fix_dependencies_loop (map fst (all_symbols s)) s"

section \<open>Reference resolution\<close>

text \<open>
  \<open>Symbol.resolve_dependencies\<close>: the loop over \<open>self.depends_on\<close>, building
  \<open>new_deps\<close>. The test \<open>dep == self.name\<close> compares with the bound method.
  \<open>nd.add_dependant(self)\<close> raises \<open>AttributeError\<close> when \<open>get_symbol\<close> returned
  \<open>None\<close>; the assignment \<open>self.depends_on = new_deps\<close> is then not reached.
\<close>

fun resolve_dependencies_loop ::
  "string \<Rightarrow> pyval list \<Rightarrow> pyval list \<Rightarrow> state \<Rightarrow> exn option \<times> pyval list \<times> state" where
  "resolve_dependencies_loop self [] new_deps s = (None, new_deps, s)"
| "resolve_dependencies_loop self (dep # deps) new_deps s =
     (let s1 = (if dep = BoundMethod self ''name''
                then py_print (SymError self ''cannot depends on itself'') s else s)
      in case get_symbol dep s1 of
           (Obj k, s2) \<Rightarrow>
             resolve_dependencies_loop self deps (new_deps @ [Obj k])
               (modify k (\<lambda>x. add_dependant x (Obj self)) s2)
         | (_, s2) \<Rightarrow> (Some AttributeError, new_deps, s2))"

definition resolve_dependencies :: "string \<Rightarrow> state \<Rightarrow> exn option \<times> state" where
  "resolve_dependencies self s =
     (case lookup s self of
        None \<Rightarrow> (Some NoSuchObject, s)
      | Some a \<Rightarrow>
          (case resolve_dependencies_loop self (depends_on a) [] s of
             (Some e, new_deps, s') \<Rightarrow> (Some e, s')
           | (None, new_deps, s') \<Rightarrow> (None, modify self (\<lambda>x. x\<lparr>depends_on := new_deps\<rparr>) s')))"

text \<open>\<open>Symbol.resolve_selects\<close>: here the result of \<open>get_symbol\<close> is only stored.\<close>

fun resolve_selects_loop ::
  "string \<Rightarrow> pyval list \<Rightarrow> pyval list \<Rightarrow> state \<Rightarrow> pyval list \<times> state" where
  "resolve_selects_loop self [] new_selects s = (new_selects, s)"
| "resolve_selects_loop self (sel # sels) new_selects s =
     (let s1 = (if sel = BoundMethod self ''name''
                then py_print (SymError self ''cannot select itself'') s else s)
      in case get_symbol sel s1 of
           (v, s2) \<Rightarrow> resolve_selects_loop self sels (new_selects @ [v]) s2)"

definition resolve_selects :: "string \<Rightarrow> state \<Rightarrow> exn option \<times> state" where
  "resolve_selects self s =
     (case lookup s self of
        None \<Rightarrow> (Some NoSuchObject, s)
      | Some a \<Rightarrow>
          (case resolve_selects_loop self (selects a) [] s of
             (new_selects, s') \<Rightarrow> (None, modify self (\<lambda>x. x\<lparr>selects := new_selects\<rparr>) s')))"

text \<open>\<open>resolve_symbols()\<close>: both passes for every symbol of the table, in its order.\<close>

fun resolve_symbols_loop :: "string list \<Rightarrow> state \<Rightarrow> exn option \<times> state" where
  "resolve_symbols_loop [] s = (None, s)"
| "resolve_symbols_loop (name # names) s =
     (case resolve_dependencies name s of
        (Some e, s1) \<Rightarrow> (Some e, s1)
      | (None, s1) \<Rightarrow>
          (case resolve_selects name s1 of
             (Some e, s2) \<Rightarrow> (Some e, s2)
           | (None, s2) \<Rightarrow> resolve_symbols_loop names s2))"

definition resolve_symbols :: "state \<Rightarrow> exn option \<times> state" where
  "resolve_symbols s = resolve_symbols_loop (map fst (all_symbols s)) s"

section \<open>Writing the configuration\<close>

text \<open>
  \<open>write_selected_to(fname)\<close>. The result carries the text passed to \<open>f.write\<close>: the
  header, then for every key of the table, in its order, whose symbol is selected when
  the loop reaches it, a call of \<open>select\<close> on that symbol followed by its line.
  Opening and closing the file are not modelled.
\<close>

definition header_line :: "string \<Rightarrow> string" where
  "header_line title = ''# Configuration '' @ [CHR 0x27] @ title @ [CHR 0x27, CHR 0x0A, CHR 0x0A]"

definition config_line :: "string \<Rightarrow> string" where
  "config_line name = ''CONFIG_'' @ name @ ''=y'' @ [CHR 0x0A]"

fun write_selected_loop ::
  "nat \<Rightarrow> string list \<Rightarrow> string \<Rightarrow> state \<Rightarrow> exn option \<times> string \<times> state" where
  "write_selected_loop depth [] f s = (None, f, s)"
| "write_selected_loop depth (name # names) f s =
     (case get_symbol (Str name) s of
        (v, s1) \<Rightarrow>
          (case deref s1 v of
             Inl e \<Rightarrow> (Some e, f, s1)
           | Inr symb \<Rightarrow>
               if is_selected symb then
                 (case call_select depth v s1 of
                    (Some e, s2) \<Rightarrow> (Some e, f, s2)
                  | (None, s2) \<Rightarrow> write_selected_loop depth names (f @ config_line name) s2)
               else write_selected_loop depth names f s1))"

definition write_selected_to :: "nat \<Rightarrow> state \<Rightarrow> exn option \<times> string \<times> state" where
  "write_selected_to depth s =
     write_selected_loop depth (map fst (all_symbols s)) (header_line (main_menu_name s)) s"

section \<open>Properties of states\<close>

text \<open>The symbol stored under \<open>k\<close> exists and its \<open>is_selected\<close> is true.\<close>

definition selected :: "state \<Rightarrow> string \<Rightarrow> bool" where
  "selected s k = (case lookup s k of Some a \<Rightarrow> is_selected a | None \<Rightarrow> False)"

text \<open>The value is a reference to a symbol of the table: what resolution leaves in
  \<open>depends_on\<close> and \<open>dependants\<close>.\<close>

definition is_symbol :: "state \<Rightarrow> pyval \<Rightarrow> bool" where
  "is_symbol s v = (case deref s v of Inr a \<Rightarrow> True | Inl e \<Rightarrow> False)"


text \<open>An apostrophe or a quotation mark.\<close>

definition is_quote :: "char \<Rightarrow> bool" where
  "is_quote c = (c = apostrophe \<or> c = quotation)"

text \<open>
  What \<open>get_symbol\<close> returns for a value in the state \<open>s\<close>: the symbol of that name, or
  \<open>None\<close>. And the two edge lists of the symbol stored under \<open>k\<close>.
\<close>

definition resolved :: "state \<Rightarrow> pyval \<Rightarrow> pyval" where
  "resolved s v = fst (get_symbol v s)"

definition edges :: "state \<Rightarrow> string \<Rightarrow> (pyval list \<times> pyval list) option" where
  "edges s k = map_option (\<lambda>a. (depends_on a, selects a)) (lookup s k)"


section \<open>Example tables\<close>

text \<open>
  \<open>A\<close> depends on \<open>B\<close> and selects \<open>C\<close>, after resolution; nothing is selected.
\<close>

definition unmet_A :: Symbol where
  "unmet_A = (new_Symbol ''A'' 2 ''Kconfig'')\<lparr>depends_on := [Obj ''B''], selects := [Obj ''C'']\<rparr>"

definition unmet_B :: Symbol where
  "unmet_B = (new_Symbol ''B'' 5 ''Kconfig'')\<lparr>dependants := [Obj ''A'']\<rparr>"

definition unmet_example :: state where
  "unmet_example =
     \<lparr>all_symbols = [(''A'', unmet_A), (''B'', unmet_B), (''C'', new_Symbol ''C'' 7 ''Kconfig'')],
      main_menu_name = ''Demo'', stdout = []\<rparr>"

text \<open>The same table after \<open>select(B)\<close>, and after \<open>select(B)\<close> and \<open>select(A)\<close>.\<close>

definition b_selected_example :: state where
  "b_selected_example =
     \<lparr>all_symbols = [(''A'', unmet_A\<lparr>is_selectable := True\<rparr>),
                     (''B'', unmet_B\<lparr>is_selected := True\<rparr>),
                     (''C'', new_Symbol ''C'' 7 ''Kconfig'')],
      main_menu_name = ''Demo'', stdout = []\<rparr>"

definition all_selected_example :: state where
  "all_selected_example =
     \<lparr>all_symbols = [(''A'', unmet_A\<lparr>is_selectable := True, is_selected := True\<rparr>),
                     (''B'', unmet_B\<lparr>is_selected := True\<rparr>),
                     (''C'', (new_Symbol ''C'' 7 ''Kconfig'')\<lparr>is_selected := True\<rparr>)],
      main_menu_name = ''Demo'', stdout = []\<rparr>"






text \<open>
  \<open>A\<close> is selected and depends on \<open>B\<close>, which is not selected. The same with a third
  symbol \<open>C\<close>, selected, on which \<open>B\<close> depends. And a table before resolution in which
  \<open>A\<close> depends on a name \<open>X\<close> that no \<open>config\<close> declares.
\<close>

definition fixup_example :: state where
  "fixup_example =
     \<lparr>all_symbols =
        [(''A'', (new_Symbol ''A'' 2 ''Kconfig'')\<lparr>depends_on := [Obj ''B''], is_selected := True\<rparr>),
         (''B'', (new_Symbol ''B'' 5 ''Kconfig'')\<lparr>dependants := [Obj ''A'']\<rparr>)],
      main_menu_name = ''Demo'', stdout = []\<rparr>"

definition chain_example :: state where
  "chain_example =
     \<lparr>all_symbols =
        [(''A'', (new_Symbol ''A'' 2 ''Kconfig'')\<lparr>depends_on := [Obj ''B''], is_selected := True\<rparr>),
         (''C'', (new_Symbol ''C'' 8 ''Kconfig'')\<lparr>dependants := [Obj ''B''], is_selected := True\<rparr>),
         (''B'', (new_Symbol ''B'' 5 ''Kconfig'')
                  \<lparr>depends_on := [Obj ''C''], dependants := [Obj ''A'']\<rparr>)],
      main_menu_name = ''Demo'', stdout = []\<rparr>"

definition dangling_example :: state where
  "dangling_example =
     \<lparr>all_symbols =
        [(''A'', (new_Symbol ''A'' 2 ''Kconfig'')\<lparr>depends_on := [Str ''X'']\<rparr>),
         (''B'', (new_Symbol ''B'' 5 ''Kconfig'')\<lparr>depends_on := [Str ''A'']\<rparr>)],
      main_menu_name = ''Demo'', stdout = []\<rparr>"

text \<open>A table before resolution in which \<open>A\<close> selects a name \<open>X\<close> that no \<open>config\<close> declares.\<close>

definition dangling_select_example :: state where
  "dangling_select_example =
     \<lparr>all_symbols =
        [(''A'', (new_Symbol ''A'' 2 ''Kconfig'')\<lparr>selects := [Str ''X'', Str ''B'']\<rparr>),
         (''B'', new_Symbol ''B'' 5 ''Kconfig'')],
      main_menu_name = ''Demo'', stdout = []\<rparr>"

text \<open>
  The tokenizer inside a \<open>config\<close> block, having read \<open>default\<close> from a line
  \<open>default v\<close>: the value \<open>v\<close>, ended by the newline, is still to come. The symbol \<open>A\<close>
  after its line \<open>default y\<close>. The tokenizer having just read the word \<open>v\<close> at the end of
  a \<open>prompt\<close> line, with the newline that ended the word at the front of \<open>pushback\<close>;
  and having just read a quoted string \<open>v\<close>, after which the newline is still to come.
\<close>

definition at_default :: "string \<Rightarrow> Tokenizer" where
  "at_default v = \<lparr>pushback = [], stream = [(v, Some [CHR 0x0A])], curr_token = ''default''\<rparr>"

definition after_default_y :: Symbol where
  "after_default_y = snd (snd (parse_default (at_default ''y'') [] (new_Symbol ''A'' 2 ''Kconfig'')))"

definition at_word :: "string \<Rightarrow> Tokenizer" where
  "at_word v = \<lparr>pushback = [[CHR 0x0A]], stream = [], curr_token = v\<rparr>"

definition at_string :: "string \<Rightarrow> Tokenizer" where
  "at_string v = \<lparr>pushback = [], stream = [([CHR 0x0A], None)], curr_token = v\<rparr>"

text \<open>
  The strings \<open>'abc"\<close>, which opens with an apostrophe and closes with a quotation
  mark, and \<open>"'a'"\<close>, the text \<open>'a'\<close> between quotation marks.
\<close>

definition mismatched :: string where
  "mismatched = [apostrophe] @ ''abc'' @ [quotation]"

definition nested :: string where
  "nested = [quotation, apostrophe] @ ''a'' @ [apostrophe, quotation]"

text \<open>
  The table for \<open>config A / depends on A / select A\<close> before resolution, and after.
\<close>

definition self_A :: Symbol where
  "self_A = (new_Symbol ''A'' 2 ''Kconfig'')\<lparr>depends_on := [Str ''A''], selects := [Str ''A'']\<rparr>"

definition self_example :: state where
  "self_example = \<lparr>all_symbols = [(''A'', self_A)], main_menu_name = ''Demo'', stdout = []\<rparr>"

definition self_resolved :: state where
  "self_resolved =
     \<lparr>all_symbols =
        [(''A'', (new_Symbol ''A'' 2 ''Kconfig'')
                  \<lparr>depends_on := [Obj ''A''], selects := [Obj ''A''], dependants := [Obj ''A'']\<rparr>)],
      main_menu_name = ''Demo'', stdout = []\<rparr>"










section \<open>Basic facts about the table\<close>

lemma lookup_modify:
  "lookup (modify k f s) k' = (if k' = k then map_option f (lookup s k') else lookup s k')"
  by (simp add: lookup_def modify_def map_of_map_entry split: option.splits)

lemma map_fst_map_entry: "map fst (AList.map_entry k f xs) = map fst xs"
  by (induction xs) auto

lemma keys_modify: "map fst (all_symbols (modify k f s)) = map fst (all_symbols s)"
  by (simp add: modify_def map_fst_map_entry)

lemma stdout_modify: "stdout (modify k f s) = stdout s"
  by (simp add: modify_def)

lemma main_menu_name_modify: "main_menu_name (modify k f s) = main_menu_name s"
  by (simp add: modify_def)

lemma deref_Inr: "deref s v = Inr a \<longleftrightarrow> (\<exists>k. v = Obj k \<and> lookup s k = Some a)"
  by (auto simp: deref_def split: pyval.splits option.splits)

lemma lookup_None_iff: "lookup s n = None \<longleftrightarrow> n \<notin> fst ` set (all_symbols s)"
  by (simp add: lookup_def map_of_eq_None_iff)

lemma same_keys: "map fst xs = map fst ys \<Longrightarrow> fst ` set xs = fst ` set ys"
  by (metis list.set_map)

lemma all_symbols_py_print: "all_symbols (py_print p s) = all_symbols s"
  by (simp add: py_print_def)

lemma all_symbols_get_symbol: "all_symbols (snd (get_symbol v s)) = all_symbols s"
  by (cases v) (auto simp: get_symbol_def all_symbols_py_print split: option.splits)


section \<open>What every selection step preserves\<close>

text \<open>
  A relation between the state before and the state after that holds of doing
  nothing, composes, and holds of the two assignments \<open>select\<close> makes (of
  \<open>is_selectable\<close> and of \<open>is_selected\<close>, both to true) holds of every call of
  \<open>select\<close>, however deep and however it ends; if it also holds of printing a line, it
  holds of the passes that call \<open>select\<close>.
\<close>

lemma notify_dependants_rel:
  assumes refl: "\<And>s. R s s"
    and trans: "\<And>s t u. R s t \<Longrightarrow> R t u \<Longrightarrow> R s u"
    and selectable: "\<And>k s. R s (modify k (\<lambda>x. make_selectable x True) s)"
  shows "R s (snd (notify_dependants deps s))"
proof (induction deps arbitrary: s)
  case Nil
  show ?case by (simp add: refl)
next
  case (Cons dep deps)
  show ?case
  proof (cases "deref s dep")
    case (Inl e)
    then show ?thesis by (simp add: refl)
  next
    case (Inr d)
    then obtain k where k: "dep = Obj k" by (auto simp: deref_Inr)
    have "R s (snd (notify_dependants deps (modify k (\<lambda>x. make_selectable x True) s)))"
      using selectable Cons.IH by (rule trans)
    with Inr k show ?thesis by simp
  qed
qed

lemma for_selects_rel:
  assumes refl: "\<And>s. R s s"
    and trans: "\<And>s t u. R s t \<Longrightarrow> R t u \<Longrightarrow> R s u"
    and call: "\<And>k s. R s (snd (call k s))"
  shows "R s (snd (for_selects call sels s))"
proof (induction sels arbitrary: s)
  case Nil
  show ?case by (simp add: refl)
next
  case (Cons sel sels)
  show ?case
  proof (cases sel)
    case (Obj k)
    obtain e s1 where c: "call k s = (e, s1)" by (cases "call k s")
    have s1: "R s s1" using call [of s k] c by simp
    show ?thesis
    proof (cases e)
      case None
      have "R s (snd (for_selects call sels s1))" using s1 Cons.IH by (rule trans)
      with Obj c None show ?thesis by simp
    next
      case (Some err)
      with Obj c s1 show ?thesis by simp
    qed
  next
    case PyNone
    with Cons.IH show ?thesis by simp
  qed (simp_all add: refl)
qed

lemma select_rel:
  assumes refl: "\<And>s. R s s"
    and trans: "\<And>s t u. R s t \<Longrightarrow> R t u \<Longrightarrow> R s u"
    and selectable: "\<And>k s. R s (modify k (\<lambda>x. make_selectable x True) s)"
    and selecting: "\<And>k s. R s (modify k (\<lambda>x. x\<lparr>is_selected := True\<rparr>) s)"
  shows "R s (snd (select depth k s))"
proof (induction depth arbitrary: k s)
  case 0
  show ?case by (simp add: refl)
next
  case (Suc depth)
  show ?case
  proof (cases "lookup s k")
    case None
    then show ?thesis by (simp add: refl)
  next
    case (Some a)
    obtain e1 s1 where n: "notify_dependants (dependants a) s = (e1, s1)"
      by (cases "notify_dependants (dependants a) s")
    have s1: "R s s1"
      using notify_dependants_rel [of R s "dependants a", OF refl trans selectable] n by simp
    let ?s2 = "modify k (\<lambda>x. x\<lparr>is_selected := True\<rparr>) s1"
    have "R s1 (snd (for_selects (select depth) sels ?s2))" for sels
      using selecting for_selects_rel [of R "select depth", OF refl trans Suc.IH]
      by (rule trans)
    with s1 have s3: "R s (snd (for_selects (select depth) sels ?s2))" for sels
      by (rule trans)
    show ?thesis
      using Some n s1 s3 refl
      by (simp split: sum.splits bool.splits option.splits)
  qed
qed

lemma call_select_rel:
  assumes refl: "\<And>s. R s s"
    and trans: "\<And>s t u. R s t \<Longrightarrow> R t u \<Longrightarrow> R s u"
    and selectable: "\<And>k s. R s (modify k (\<lambda>x. make_selectable x True) s)"
    and selecting: "\<And>k s. R s (modify k (\<lambda>x. x\<lparr>is_selected := True\<rparr>) s)"
  shows "R s (snd (call_select depth v s))"
  using select_rel [of R, OF refl trans selectable selecting] refl
  by (cases v) (simp_all add: call_select_def)

lemma select_configs_rel:
  assumes refl: "\<And>s. R s s"
    and trans: "\<And>s t u. R s t \<Longrightarrow> R t u \<Longrightarrow> R s u"
    and selectable: "\<And>k s. R s (modify k (\<lambda>x. make_selectable x True) s)"
    and selecting: "\<And>k s. R s (modify k (\<lambda>x. x\<lparr>is_selected := True\<rparr>) s)"
    and printing: "\<And>p s. R s (py_print p s)"
  shows "R s (snd (select_configs depth clist s))"
proof (induction clist arbitrary: s)
  case Nil
  show ?case by (simp add: refl)
next
  case (Cons cname clist)
  obtain v s1 where g: "get_symbol (Str cname) s = (v, s1)"
    by (cases "get_symbol (Str cname) s")
  have s1: "R s s1"
    using g refl printing by (auto simp: get_symbol_def split: option.splits)
  obtain e s2 where c: "call_select depth v s1 = (e, s2)" by (cases "call_select depth v s1")
  have "R s1 s2"
    using call_select_rel [of R s1 depth v, OF refl trans selectable selecting] c by simp
  with s1 have s2: "R s s2" by (rule trans)
  show ?case
  proof (cases e)
    case None
    have "R s (snd (select_configs depth clist s2))" using s2 Cons.IH by (rule trans)
    with g c None show ?thesis by simp
  next
    case (Some err)
    with g c s2 show ?thesis by simp
  qed
qed

lemma select_defaults_loop_rel:
  assumes refl: "\<And>s. R s s"
    and trans: "\<And>s t u. R s t \<Longrightarrow> R t u \<Longrightarrow> R s u"
    and selectable: "\<And>k s. R s (modify k (\<lambda>x. make_selectable x True) s)"
    and selecting: "\<And>k s. R s (modify k (\<lambda>x. x\<lparr>is_selected := True\<rparr>) s)"
  shows "R s (snd (select_defaults_loop depth names s))"
proof (induction names arbitrary: s)
  case Nil
  show ?case by (simp add: refl)
next
  case (Cons name names)
  show ?case
  proof (cases "lookup s name")
    case None
    then show ?thesis by (simp add: refl)
  next
    case (Some symb)
    obtain e s2 where c: "select depth name s = (e, s2)" by (cases "select depth name s")
    have s2: "R s s2"
      using select_rel [of R s depth name, OF refl trans selectable selecting] c by simp
    have "R s (snd (select_defaults_loop depth names s2))" using s2 Cons.IH by (rule trans)
    with Some c s2 Cons.IH [of s] show ?thesis
      by (cases e) simp_all
  qed
qed

lemma write_selected_loop_rel:
  assumes refl: "\<And>s. R s s"
    and trans: "\<And>s t u. R s t \<Longrightarrow> R t u \<Longrightarrow> R s u"
    and selectable: "\<And>k s. R s (modify k (\<lambda>x. make_selectable x True) s)"
    and selecting: "\<And>k s. R s (modify k (\<lambda>x. x\<lparr>is_selected := True\<rparr>) s)"
    and printing: "\<And>p s. R s (py_print p s)"
  shows "R s (snd (snd (write_selected_loop depth names f s)))"
proof (induction names arbitrary: f s)
  case Nil
  show ?case by (simp add: refl)
next
  case (Cons name names)
  obtain v s1 where g: "get_symbol (Str name) s = (v, s1)"
    by (cases "get_symbol (Str name) s")
  have s1: "R s s1"
    using g refl printing by (auto simp: get_symbol_def split: option.splits)
  obtain e s2 where c: "call_select depth v s1 = (e, s2)" by (cases "call_select depth v s1")
  have "R s1 s2"
    using call_select_rel [of R s1 depth v, OF refl trans selectable selecting] c by simp
  with s1 have s2: "R s s2" by (rule trans)
  have r1: "R s (snd (snd (write_selected_loop depth names g1 s1)))" for g1
    using s1 Cons.IH by (rule trans)
  have r2: "R s (snd (snd (write_selected_loop depth names g2 s2)))" for g2
    using s2 Cons.IH by (rule trans)
  show ?case
    using g c s1 s2 r1 r2
    by (cases e) (simp_all split: sum.splits)
qed

text \<open>Two such relations: the keys stay as they are, and a selected symbol stays selected.\<close>

lemma selected_modify:
  "selected s x \<Longrightarrow> (\<And>a. is_selected a \<Longrightarrow> is_selected (f a)) \<Longrightarrow> selected (modify k f s) x"
  by (auto simp: selected_def lookup_modify split: option.splits)

lemma selected_py_print: "selected (py_print p s) x = selected s x"
  by (simp add: selected_def lookup_def py_print_def)

lemma select_selected: "selected s x \<Longrightarrow> selected (snd (select depth k s)) x"
  by (rule select_rel [of "\<lambda>s t. selected s x \<longrightarrow> selected t x", rule_format])
     (simp_all add: selected_modify make_selectable_def)


lemma select_configs_selected:
  "selected s x \<Longrightarrow> selected (snd (select_configs depth clist s)) x"
  by (rule select_configs_rel [of "\<lambda>s t. selected s x \<longrightarrow> selected t x", rule_format])
     (simp_all add: selected_modify make_selectable_def selected_py_print)

lemma select_defaults_loop_selected:
  "selected s x \<Longrightarrow> selected (snd (select_defaults_loop depth names s)) x"
  by (rule select_defaults_loop_rel [of "\<lambda>s t. selected s x \<longrightarrow> selected t x", rule_format])
     (simp_all add: selected_modify make_selectable_def)

lemma write_selected_loop_selected:
  "selected s x \<Longrightarrow> selected (snd (snd (write_selected_loop depth names f s))) x"
  by (rule write_selected_loop_rel [of "\<lambda>s t. selected s x \<longrightarrow> selected t x", rule_format])
     (simp_all add: selected_modify make_selectable_def selected_py_print)

section \<open>Selecting a symbol with an unmet dependency\<close>

lemma unmet_dependency_found:
  "Obj B \<in> set deps \<Longrightarrow> lookup s B = Some b \<Longrightarrow> \<not> is_selected b
     \<Longrightarrow> unmet_dependency s deps \<noteq> Inr False"
  by (induction deps) (auto simp: deref_def split: sum.splits pyval.splits option.splits)

lemma unmet_dependency_resolved:
  "list_all (is_symbol s) deps \<Longrightarrow> \<exists>r. unmet_dependency s deps = Inr r"
  by (induction deps) (auto simp: is_symbol_def split: sum.splits)

text \<open>
  Claim C2. If some dependency of \<open>A\<close> is a symbol that is not selected, \<open>select(A)\<close>
  leaves the whole state as it was: \<open>A\<close> is not selected, no \<open>is_selectable\<close> flag
  changes and nothing is printed. The call ends in its first loop, either by the
  \<open>return\<close> or, if an entry of \<open>depends_on\<close> before the unselected one is not a symbol,
  by the exception that reading \<open>is_selected\<close> raises; when all dependencies are
  symbols it is the \<open>return\<close>. The result holds for every depth from one on. With
  depth one a nested \<open>select\<close> would raise, so the normal return shows that no symbol
  of \<open>selects\<close> is visited.
\<close>

theorem select_unmet_dependency:
  assumes "lookup s A = Some a" and "Obj B \<in> set (depends_on a)"
    and "lookup s B = Some b" and "\<not> is_selected b"
  shows "(\<exists>e. select (Suc depth) A s = (e, s)) \<and>
         (list_all (is_symbol s) (depends_on a) \<longrightarrow> select (Suc depth) A s = (None, s))"
proof -
  have ne: "unmet_dependency s (depends_on a) \<noteq> Inr False"
    using assms(2-4) by (rule unmet_dependency_found)
  show ?thesis
  proof (cases "unmet_dependency s (depends_on a)")
    case (Inl e)
    moreover have "\<not> list_all (is_symbol s) (depends_on a)"
      using Inl unmet_dependency_resolved[of s "depends_on a"] by auto
    ultimately show ?thesis using assms(1) by simp
  next
    case (Inr r)
    with ne have "r" by auto
    with Inr assms(1) show ?thesis by simp
  qed
qed

theorem select_unmet_dependency_witness:
  "lookup unmet_example ''A'' = Some unmet_A \<and> Obj ''B'' \<in> set (depends_on unmet_A) \<and>
   lookup unmet_example ''B'' = Some unmet_B \<and> \<not> is_selected unmet_B \<and>
   list_all (is_symbol unmet_example) (depends_on unmet_A) \<and>
   select (Suc 0) ''A'' unmet_example = (None, unmet_example)"
proof -
  have a: "lookup unmet_example ''A'' = Some unmet_A"
    by (simp add: lookup_def unmet_example_def)
  have d: "Obj ''B'' \<in> set (depends_on unmet_A)"
    by (simp add: unmet_A_def)
  have b: "lookup unmet_example ''B'' = Some unmet_B"
    by (simp add: lookup_def unmet_example_def)
  have u: "\<not> is_selected unmet_B"
    by (simp add: unmet_B_def new_Symbol_def)
  have r: "list_all (is_symbol unmet_example) (depends_on unmet_A)"
    by (simp add: unmet_A_def is_symbol_def deref_def b)
  from select_unmet_dependency [OF a d b u, of 0] r a d b u show ?thesis
    by blast
qed

section \<open>Dependency fixup changes nothing\<close>

lemma map_entry_id: "map_of xs k = Some a \<Longrightarrow> f a = a \<Longrightarrow> AList.map_entry k f xs = xs"
  by (induction xs) (auto split: if_splits)

lemma modify_id: "lookup s k = Some a \<Longrightarrow> f a = a \<Longrightarrow> modify k f s = s"
  by (simp add: lookup_def modify_def map_entry_id)

lemma fix_dependencies_for_id: "snd (fix_dependencies_for symb deplist s) = s"
proof (induction deplist)
  case Nil
  show ?case by simp
next
  case (Cons dep deplist)
  show ?case
  proof (cases "deref s dep")
    case (Inl e)
    then show ?thesis by simp
  next
    case (Inr d)
    then obtain k where k: "dep = Obj k" "lookup s k = Some d" by (auto simp: deref_Inr)
    have "\<not> is_selected d \<Longrightarrow> modify k deselect s = s"
      using k(2) by (rule modify_id) (simp add: deselect_def)
    with Inr k Cons.IH show ?thesis by simp
  qed
qed

lemma fix_dependencies_loop_id: "snd (fix_dependencies_loop names s) = s"
proof (induction names)
  case Nil
  show ?case by simp
next
  case (Cons name names)
  show ?case
  proof (cases "lookup s name")
    case None
    then show ?thesis by simp
  next
    case (Some symb)
    obtain e s' where r: "fix_dependencies_for name (get_dependencies symb) s = (e, s')"
      by (cases "fix_dependencies_for name (get_dependencies symb) s")
    with fix_dependencies_for_id [of name "get_dependencies symb" s] have "s' = s" by simp
    with Some r Cons.IH show ?thesis by (cases e) (simp_all add: Let_def)
  qed
qed

text \<open>
  \<open>fix_dependencies_for\<close> calls \<open>deselect\<close> on the dependency it has just found
  unselected, never on the symbol that has the dependency, so the pass leaves every
  state as it found it, whether it ends normally or by an exception.
\<close>

theorem fix_dependencies_changes_nothing: "snd (fix_dependencies s) = s"
  by (simp add: fix_dependencies_def fix_dependencies_loop_id)

text \<open>
  Claim C1 says that a selected symbol with an unselected dependency is deselected by
  the fixup. On the table where \<open>A\<close> is selected and its dependency \<open>B\<close> is not, the
  pass returns the table unchanged: \<open>A\<close> stays selected.
\<close>

theorem fix_dependencies_keeps_dependant_selected:
  "selected fixup_example ''A'' \<and> \<not> selected fixup_example ''B'' \<and>
   map_option depends_on (lookup fixup_example ''A'') = Some [Obj ''B''] \<and>
   fix_dependencies fixup_example = (None, fixup_example)"
  by code_simp

section \<open>No pass clears a flag\<close>

lemma selected_modify_eq:
  assumes "\<And>a. is_selected (f a) = is_selected a"
  shows "selected (modify k f s) x = selected s x"
proof (cases "lookup s x")
  case None
  then have "lookup (modify k f s) x = None"
    by (cases "x = k") (simp_all add: lookup_modify)
  with None show ?thesis by (simp add: selected_def)
next
  case (Some a)
  then have "lookup (modify k f s) x = Some (if x = k then f a else a)"
    by (cases "x = k") (simp_all add: lookup_modify)
  with Some assms [of a] show ?thesis by (simp add: selected_def)
qed

lemma selected_get_symbol: "selected (snd (get_symbol v s)) x = selected s x"
  using all_symbols_get_symbol [of v s] by (simp add: selected_def lookup_def)

lemma resolve_dependencies_loop_selected:
  "selected (snd (snd (resolve_dependencies_loop self deps acc s))) x = selected s x"
proof (induction deps arbitrary: acc s)
  case Nil
  show ?case by simp
next
  case (Cons dep deps)
  let ?s1 = "if dep = BoundMethod self ''name''
             then py_print (SymError self ''cannot depends on itself'') s else s"
  obtain v s2 where g: "get_symbol dep ?s1 = (v, s2)" by (cases "get_symbol dep ?s1")
  have s1: "selected ?s1 x = selected s x" by (simp add: selected_py_print)
  have s2: "selected s2 x = selected s x"
    using selected_get_symbol [of dep ?s1 x] g s1 by simp
  show ?case
  proof (cases v)
    case (Obj k)
    have "selected (modify k (\<lambda>x. add_dependant x (Obj self)) s2) x = selected s x"
      using s2 by (simp add: selected_modify_eq add_dependant_def)
    with Cons.IH [of "acc @ [Obj k]" "modify k (\<lambda>x. add_dependant x (Obj self)) s2"] g Obj
    show ?thesis by (simp add: Let_def)
  qed (use g s2 in \<open>simp_all add: Let_def\<close>)
qed

lemma resolve_dependencies_selected:
  "selected (snd (resolve_dependencies self s)) x = selected s x"
proof (cases "lookup s self")
  case None
  then show ?thesis by (simp add: resolve_dependencies_def)
next
  case (Some a)
  obtain e nd s1 where r: "resolve_dependencies_loop self (depends_on a) [] s = (e, nd, s1)"
    by (cases "resolve_dependencies_loop self (depends_on a) [] s") auto
  have "selected s1 x = selected s x"
    using resolve_dependencies_loop_selected [of self "depends_on a" "[]" s x] r by simp
  with Some r show ?thesis
    by (cases e) (simp_all add: resolve_dependencies_def selected_modify_eq)
qed

lemma resolve_selects_loop_selected:
  "selected (snd (resolve_selects_loop self sels acc s)) x = selected s x"
proof (induction sels arbitrary: acc s)
  case Nil
  show ?case by simp
next
  case (Cons sel sels)
  let ?s1 = "if sel = BoundMethod self ''name''
             then py_print (SymError self ''cannot select itself'') s else s"
  obtain v s2 where g: "get_symbol sel ?s1 = (v, s2)" by (cases "get_symbol sel ?s1")
  have s1: "selected ?s1 x = selected s x" by (simp add: selected_py_print)
  have s2: "selected s2 x = selected s x"
    using selected_get_symbol [of sel ?s1 x] g s1 by simp
  from Cons.IH [of "acc @ [v]" s2] g s2 show ?case by (simp add: Let_def)
qed

lemma resolve_selects_selected:
  "selected (snd (resolve_selects self s)) x = selected s x"
proof (cases "lookup s self")
  case None
  then show ?thesis by (simp add: resolve_selects_def)
next
  case (Some a)
  obtain ns s1 where r: "resolve_selects_loop self (selects a) [] s = (ns, s1)"
    by (cases "resolve_selects_loop self (selects a) [] s")
  have "selected s1 x = selected s x"
    using resolve_selects_loop_selected [of self "selects a" "[]" s x] r by simp
  with Some r show ?thesis
    by (simp add: resolve_selects_def selected_modify_eq)
qed

lemma resolve_symbols_loop_selected:
  "selected (snd (resolve_symbols_loop names s)) x = selected s x"
proof (induction names arbitrary: s)
  case Nil
  show ?case by simp
next
  case (Cons name names)
  obtain e1 s1 where d: "resolve_dependencies name s = (e1, s1)"
    by (cases "resolve_dependencies name s")
  obtain e2 s2 where r: "resolve_selects name s1 = (e2, s2)"
    by (cases "resolve_selects name s1")
  have s1: "selected s1 x = selected s x"
    using resolve_dependencies_selected [of name s x] d by simp
  have s2: "selected s2 x = selected s x"
    using resolve_selects_selected [of name s1 x] r s1 by simp
  from d r s1 s2 Cons.IH [of s2] show ?case
    by (cases e1; cases e2) simp_all
qed

text \<open>
  Claim C10, as the code has it. A symbol that is selected stays selected through
  every call of \<open>select\<close>, the default pass and the explicit pass, however deep the
  cascade goes and however the call ends (by returning, by an exception, by the
  recursion limit); resolution and the writer of the output do not clear a flag
  either. The one assignment of false to \<open>is_selected\<close> is \<open>deselect\<close>, which only
  \<open>fix_dependencies_for\<close> calls: all that the fixup can do to a symbol is \<open>deselect\<close>.
\<close>

theorem selection_monotone:
  "(selected s x \<longrightarrow> selected (snd (select depth k s)) x) \<and>
   (selected s x \<longrightarrow> selected (snd (select_defaults depth s)) x) \<and>
   (selected s x \<longrightarrow> selected (snd (select_configs depth clist s)) x) \<and>
   (selected s x \<longrightarrow> selected (snd (resolve_symbols s)) x) \<and>
   (selected s x \<longrightarrow> selected (snd (snd (write_selected_to depth s))) x) \<and>
   (lookup (snd (fix_dependencies s)) x = lookup s x \<or>
    lookup (snd (fix_dependencies s)) x = map_option deselect (lookup s x)) \<and>
   \<not> is_selected (deselect a)"
  using select_selected [of s x depth k] select_configs_selected [of s x depth clist]
    select_defaults_loop_selected [of s x depth "map fst (all_symbols s)"]
    write_selected_loop_selected [of s x depth "map fst (all_symbols s)"
      "header_line (main_menu_name s)"]
    resolve_symbols_loop_selected [of "map fst (all_symbols s)" s x]
    fix_dependencies_loop_id [of "map fst (all_symbols s)" s]
  by (simp add: select_defaults_def write_selected_to_def resolve_symbols_def
      fix_dependencies_def deselect_def)

theorem selection_monotone_witness:
  "selected b_selected_example ''B'' \<and>
   select 2 ''A'' b_selected_example = (None, all_selected_example) \<and>
   select_configs 2 [''A''] b_selected_example = (None, all_selected_example) \<and>
   selected all_selected_example ''B'' \<and>
   selected (snd (select 1 ''A'' b_selected_example)) ''B'' \<and>
   fst (select 1 ''A'' b_selected_example) = Some RuntimeError"
proof -
  have b: "selected b_selected_example ''B''"
    by code_simp
  have r: "select 2 ''A'' b_selected_example = (None, all_selected_example)"
    by code_simp
  have c: "select_configs 2 [''A''] b_selected_example = (None, all_selected_example)"
    by code_simp
  have e: "fst (select 1 ''A'' b_selected_example) = Some RuntimeError"
    by code_simp
  from selection_monotone [of b_selected_example "''B''" 2 "''A''"] r b
  have "selected all_selected_example ''B''" by simp
  moreover from selection_monotone [of b_selected_example "''B''" 1 "''A''"] b
  have "selected (snd (select 1 ''A'' b_selected_example)) ''B''" by blast
  ultimately show ?thesis using b r c e by blast
qed

text \<open>
  The claim as stated fails in its second half: the fixup's \<open>deselect\<close> does not clear
  a flag that is set. It is only ever applied to a dependency that is already
  unselected (here \<open>B\<close>), and the symbol with the unmet dependency (here \<open>A\<close>) keeps its
  flag; the fixup changes no state at all.
\<close>

theorem fix_dependencies_clears_nothing_counterexample:
  "selected chain_example ''A'' \<and> \<not> selected chain_example ''B'' \<and>
   map_option depends_on (lookup chain_example ''A'') = Some [Obj ''B''] \<and>
   fix_dependencies chain_example = (None, chain_example) \<and>
   (\<forall>s. snd (fix_dependencies s) = s)"
proof -
  have "selected chain_example ''A'' \<and> \<not> selected chain_example ''B'' \<and>
   map_option depends_on (lookup chain_example ''A'') = Some [Obj ''B''] \<and>
   fix_dependencies chain_example = (None, chain_example)"
    by code_simp
  then show ?thesis
    by (simp add: fix_dependencies_def fix_dependencies_loop_id)
qed

section \<open>Selecting a symbol that selects another\<close>

















section \<open>Names that are not in the table\<close>

text \<open>
  Claim C5 says that resolution reports a name that is not in the table, skips the
  edge and goes on. For a dependency the line is printed and then
  \<open>nd.add_dependant(self)\<close> raises \<open>AttributeError\<close> on \<open>None\<close>: the pass ends there,
  with \<open>A.depends_on\<close> still the list of names and \<open>B\<close> not resolved at all.
\<close>

theorem resolve_symbols_missing_dependency_raises:
  "resolve_symbols dangling_example =
     (Some AttributeError, py_print (NotFound (Str ''X'')) dangling_example)"
  by code_simp

text \<open>
  For a name in \<open>selects\<close> the same lookup does not end the run: the line is printed,
  \<open>None\<close> is stored in place of the name, the remaining names are resolved, and
  \<open>select\<close> later passes over the \<open>None\<close>.
\<close>

lemma resolve_symbols_missing_select_continues:
  "resolve_symbols dangling_select_example =
     (None,
      \<lparr>all_symbols =
         [(''A'', (new_Symbol ''A'' 2 ''Kconfig'')\<lparr>selects := [PyNone, Obj ''B'']\<rparr>),
          (''B'', new_Symbol ''B'' 5 ''Kconfig'')],
       main_menu_name = ''Demo'', stdout = [NotFound (Str ''X'')]\<rparr>)"
  by code_simp

text \<open>
  Claim C6 says that \<open>select_configs\<close> reports a name that is not in the table, skips
  it and goes on. The line is printed and then \<open>.select()\<close> raises \<open>AttributeError\<close>
  on \<open>None\<close>: the names after it are not processed (\<open>C\<close> is in the table and stays
  unselected).
\<close>

theorem select_configs_missing_name_raises:
  "select_configs 2 [''X'', ''C''] unmet_example =
     (Some AttributeError, py_print (NotFound (Str ''X'')) unmet_example) \<and>
   \<not> selected (py_print (NotFound (Str ''X'')) unmet_example) ''C''"
  by code_simp

section \<open>Parsing \<open>default\<close> and quoted strings\<close>

text \<open>
  Claim C7, as the code has it. \<open>parse_default\<close> reads one token. When the token is
  \<open>y\<close> it sets \<open>is_default\<close> to true; when it is \<open>n\<close> it sets \<open>is_default\<close> to false
  (\<open>make_default(False)\<close> assigns the flag, so \<open>default n\<close> leaves it alone only while
  it is false); in both cases nothing is printed. For any other token it prints the
  diagnostic and leaves the symbol as it was. Only \<open>y\<close> makes the flag true, and no
  other field of the symbol changes.
\<close>

theorem parse_default_result:
  "parse_default tk out symb =
     (snd (get_token tk),
      (if fst (get_token tk) = ''y'' then out
       else if fst (get_token tk) = ''n'' then out
       else out @ [TokError ''You can only use 'y' or 'n' for default'']),
      (if fst (get_token tk) = ''y'' then symb\<lparr>is_default := True\<rparr>
       else if fst (get_token tk) = ''n'' then symb\<lparr>is_default := False\<rparr>
       else symb))"
  by (simp add: parse_default_def make_default_def split: prod.splits)

theorem parse_default_result_witness:
  "get_token (at_default ''maybe'') =
     (''maybe'', \<lparr>pushback = [[CHR 0x0A]], stream = [], curr_token = ''maybe''\<rparr>) \<and>
   parse_default (at_default ''maybe'') [] after_default_y =
     (\<lparr>pushback = [[CHR 0x0A]], stream = [], curr_token = ''maybe''\<rparr>,
      [TokError ''You can only use 'y' or 'n' for default''], after_default_y) \<and>
   is_default after_default_y"
proof -
  have g: "get_token (at_default ''maybe'') =
     (''maybe'', \<lparr>pushback = [[CHR 0x0A]], stream = [], curr_token = ''maybe''\<rparr>)"
    by (simp add: get_token_def at_default_def)
  have d: "is_default after_default_y" by code_simp
  from parse_default_result [of "at_default ''maybe''" "[]" after_default_y] g d
  show ?thesis by simp
qed

text \<open>
  The claim as stated fails after an earlier \<open>default y\<close>: the flag is true, and
  \<open>default n\<close> makes it false.
\<close>

theorem parse_default_n_counterexample:
  "is_default after_default_y \<and>
   \<not> is_default (snd (snd (parse_default (at_default ''n'') [] after_default_y)))"
  by code_simp

text \<open>
  Claim C8, as the code has it. A token that is not empty is accepted exactly when
  its first character is an apostrophe or a quotation mark and its last character is
  an apostrophe or a quotation mark; the two are tested separately and need not be the
  same. The result is then the token with every leading and trailing apostrophe and
  quotation mark removed, and the tokenizer and the output are untouched. Otherwise
  one line is printed (for the start if the start is wrong, else for the end), the
  result is the empty string and the tokenizer's current token is pushed back.
\<close>

theorem parse_string_result:
  assumes "s \<noteq> []"
  shows "parse_string tk out s =
     (if is_quote (hd s) \<and> is_quote (last s)
      then Inr (strip [quotation, apostrophe] s, tk, out)
      else Inr ([], tk\<lparr>pushback := pushback tk @ [curr_token tk]\<rparr>,
                out @ [TokError (if is_quote (hd s)
                                 then ''String must end with an apostrophe or a quotation''
                                 else ''String must start with an apostrophe or a quotation'')]))"
proof -
  from assms obtain c cs where s: "s = c # cs" by (cases s) auto
  have l: "s ! (length s - 1) = last s" using assms by (simp add: last_conv_nth)
  show ?thesis
    unfolding parse_string_def Let_def l
    by (simp add: s is_quote_def put_token_def)
qed

theorem parse_string_result_witness:
  "''abc'' \<noteq> [] \<and>
   parse_string (at_word ''abc'') [] ''abc'' =
     Inr ([], \<lparr>pushback = [[CHR 0x0A], ''abc''], stream = [], curr_token = ''abc''\<rparr>,
          [TokError ''String must start with an apostrophe or a quotation''])"
proof -
  have n: "''abc'' \<noteq> []" by simp
  from parse_string_result [OF n, of "at_word ''abc''" "[]"] show ?thesis
    by (simp add: is_quote_def apostrophe_def quotation_def at_word_def)
qed

text \<open>
  The claim as stated fails on a token whose quotes do not match, which is accepted,
  and on a quoted token whose content begins or ends with a quote character, which
  loses it: \<open>"'a'"\<close> yields \<open>a\<close>, not \<open>'a'\<close>.
\<close>

theorem parse_string_counterexample:
  "hd mismatched = apostrophe \<and> last mismatched = quotation \<and> apostrophe \<noteq> quotation \<and>
   parse_string (at_string mismatched) [] mismatched = Inr (''abc'', at_string mismatched, []) \<and>
   parse_string (at_string nested) [] nested = Inr (''a'', at_string nested, [])"
  by code_simp

text \<open>The empty token, which the tokenizer returns at the end of its input, raises.\<close>

lemma parse_string_empty: "parse_string tk out [] = Inl IndexError"
  by (simp add: parse_string_def)

section \<open>Resolution keeps every edge\<close>

lemma resolved_eq:
  "resolved s v =
     (case v of
        Str n \<Rightarrow> if n \<in> fst ` set (all_symbols s) then Obj n else PyNone
      | _ \<Rightarrow> PyNone)"
proof (cases v)
  case (Str n)
  show ?thesis
  proof (cases "lookup s n")
    case None
    with Str lookup_None_iff [of s n] show ?thesis
      by (simp add: resolved_def get_symbol_def)
  next
    case (Some a)
    with Str lookup_None_iff [of s n] show ?thesis
      by (simp add: resolved_def get_symbol_def)
  qed
qed (simp_all add: resolved_def get_symbol_def)

lemma resolved_cong:
  "map fst (all_symbols s') = map fst (all_symbols s) \<Longrightarrow> resolved s' = resolved s"
proof (rule ext)
  fix v
  assume "map fst (all_symbols s') = map fst (all_symbols s)"
  then have "fst ` set (all_symbols s') = fst ` set (all_symbols s)" by (rule same_keys)
  then show "resolved s' v = resolved s v" by (cases v) (simp_all add: resolved_eq)
qed

lemma edges_all_symbols: "all_symbols s' = all_symbols s \<Longrightarrow> edges s' = edges s"
  by (rule ext) (simp add: edges_def lookup_def)

lemma edges_add_dependant: "edges (modify k (\<lambda>x. add_dependant x v) s) = edges s"
proof (rule ext)
  fix j
  show "edges (modify k (\<lambda>x. add_dependant x v) s) j = edges s j"
    by (cases "lookup s j") (auto simp: edges_def lookup_modify add_dependant_def)
qed

lemma resolve_dependencies_loop_names:
  assumes "\<forall>v\<in>set deps. \<exists>n. v = Str n \<and> lookup s n \<noteq> None"
  shows "\<exists>s'. resolve_dependencies_loop self deps acc s = (None, acc @ map (resolved s) deps, s') \<and>
              map fst (all_symbols s') = map fst (all_symbols s) \<and> edges s' = edges s"
  using assms
proof (induction deps arbitrary: acc s)
  case Nil
  show ?case by simp
next
  case (Cons dep deps)
  from Cons.prems obtain n a where n: "dep = Str n" "lookup s n = Some a" by auto
  let ?s1 = "modify n (\<lambda>x. add_dependant x (Obj self)) s"
  have keys: "map fst (all_symbols ?s1) = map fst (all_symbols s)" by (rule keys_modify)
  have "\<forall>v\<in>set deps. \<exists>m. v = Str m \<and> lookup ?s1 m \<noteq> None"
    using Cons.prems by (simp add: lookup_None_iff same_keys [OF keys])
  from Cons.IH [OF this, of "acc @ [Obj n]"]
  obtain s' where s': "resolve_dependencies_loop self deps (acc @ [Obj n]) ?s1 =
        (None, (acc @ [Obj n]) @ map (resolved ?s1) deps, s')"
      "map fst (all_symbols s') = map fst (all_symbols ?s1)" "edges s' = edges ?s1"
    by blast
  have r: "resolved ?s1 = resolved s" using keys by (rule resolved_cong)
  have g: "get_symbol (Str n) s = (Obj n, s)" using n(2) by (simp add: get_symbol_def)
  have "resolved s dep = Obj n" using n g by (simp add: resolved_def)
  with s' n g r keys show ?case by (simp add: edges_add_dependant)
qed

lemma resolve_selects_loop_result:
  "\<exists>s'. resolve_selects_loop self sels acc s = (acc @ map (resolved s) sels, s') \<and>
        all_symbols s' = all_symbols s"
proof (induction sels arbitrary: acc s)
  case Nil
  show ?case by simp
next
  case (Cons sel sels)
  let ?s1 = "if sel = BoundMethod self ''name''
             then py_print (SymError self ''cannot select itself'') s else s"
  obtain v s2 where g: "get_symbol sel ?s1 = (v, s2)" by (cases "get_symbol sel ?s1")
  have t1: "all_symbols ?s1 = all_symbols s" by (simp add: all_symbols_py_print)
  have t2: "all_symbols s2 = all_symbols s"
    using all_symbols_get_symbol [of sel ?s1] g t1 by simp
  have "resolved ?s1 = resolved s" by (rule resolved_cong) (simp only: t1)
  moreover have "resolved ?s1 sel = v" by (simp only: resolved_def g fst_conv)
  ultimately have v: "v = resolved s sel" by simp
  from Cons.IH [of "acc @ [v]" s2]
  obtain s' where s': "resolve_selects_loop self sels (acc @ [v]) s2 =
      ((acc @ [v]) @ map (resolved s2) sels, s')" "all_symbols s' = all_symbols s2"
    by blast
  have r2: "resolved s2 = resolved s" by (rule resolved_cong) (simp only: t2)
  have "resolve_selects_loop self (sel # sels) acc s =
      ((acc @ [v]) @ map (resolved s2) sels, s')"
    unfolding resolve_selects_loop.simps Let_def g prod.case by (rule s'(1))
  moreover have "(acc @ [v]) @ map (resolved s2) sels = acc @ map (resolved s) (sel # sels)"
    by (simp add: v r2)
  moreover have "all_symbols s' = all_symbols s"
    by (simp only: s'(2) t2)
  ultimately show ?case by (intro exI [of _ s'] conjI) simp_all
qed

lemma edges_set_depends_on:
  "lookup s self = Some a \<Longrightarrow>
   edges (modify self (\<lambda>x. x\<lparr>depends_on := nd\<rparr>) s) k =
     (if k = self then Some (nd, selects a) else edges s k)"
  by (simp add: edges_def lookup_modify)

lemma edges_set_selects:
  "lookup s self = Some a \<Longrightarrow>
   edges (modify self (\<lambda>x. x\<lparr>selects := ns\<rparr>) s) k =
     (if k = self then Some (depends_on a, ns) else edges s k)"
  by (simp add: edges_def lookup_modify)

lemma edges_lookup: "edges s' = edges s \<Longrightarrow> lookup s k = Some a
   \<Longrightarrow> \<exists>a'. lookup s' k = Some a' \<and> depends_on a' = depends_on a \<and> selects a' = selects a"
  by (drule fun_cong [where x = k]) (auto simp: edges_def)

lemma resolve_dependencies_names:
  assumes a: "lookup s self = Some a"
    and names: "\<forall>v\<in>set (depends_on a). \<exists>n. v = Str n \<and> lookup s n \<noteq> None"
  shows "\<exists>s'. resolve_dependencies self s = (None, s') \<and>
              map fst (all_symbols s') = map fst (all_symbols s) \<and>
              (\<forall>k. edges s' k = (if k = self then Some (map (resolved s) (depends_on a), selects a)
                                 else edges s k))"
proof -
  from resolve_dependencies_loop_names [OF names, of self "[]"]
  obtain s1 where s1: "resolve_dependencies_loop self (depends_on a) [] s =
        (None, map (resolved s) (depends_on a), s1)"
      "map fst (all_symbols s1) = map fst (all_symbols s)" "edges s1 = edges s"
    by auto
  from edges_lookup [OF s1(3) a] obtain a1 where a1: "lookup s1 self = Some a1"
      "depends_on a1 = depends_on a" "selects a1 = selects a" by blast
  show ?thesis
    using a s1 a1 by (simp add: resolve_dependencies_def keys_modify edges_set_depends_on)
qed

lemma resolve_selects_result:
  assumes a: "lookup s self = Some a"
  shows "\<exists>s'. resolve_selects self s = (None, s') \<and>
              map fst (all_symbols s') = map fst (all_symbols s) \<and>
              (\<forall>k. edges s' k = (if k = self then Some (depends_on a, map (resolved s) (selects a))
                                 else edges s k))"
proof -
  from resolve_selects_loop_result [of self "selects a" "[]" s]
  obtain s1 where s1: "resolve_selects_loop self (selects a) [] s = (map (resolved s) (selects a), s1)"
      "all_symbols s1 = all_symbols s"
    by auto
  have a1: "lookup s1 self = Some a" using a s1(2) by (simp add: lookup_def)
  have "edges s1 = edges s" using s1(2) by (rule edges_all_symbols)
  then show ?thesis
    using a s1 a1 by (simp add: resolve_selects_def keys_modify edges_set_selects)
qed

lemma resolve_symbols_loop_names:
  assumes "distinct names"
    and "\<forall>k\<in>set names. \<exists>a. lookup s k = Some a \<and>
           (\<forall>v\<in>set (depends_on a). \<exists>n. v = Str n \<and> lookup s n \<noteq> None)"
  shows "\<exists>s'. resolve_symbols_loop names s = (None, s') \<and>
              map fst (all_symbols s') = map fst (all_symbols s) \<and>
              (\<forall>k. edges s' k =
                 (if k \<in> set names
                  then map_option (\<lambda>(d, e). (map (resolved s) d, map (resolved s) e)) (edges s k)
                  else edges s k))"
  using assms
proof (induction names arbitrary: s)
  case Nil
  show ?case by simp
next
  case (Cons name names)
  from Cons.prems(2) obtain a where a: "lookup s name = Some a"
      "\<forall>v\<in>set (depends_on a). \<exists>n. v = Str n \<and> lookup s n \<noteq> None" by auto
  from resolve_dependencies_names [OF a]
  obtain s1 where s1: "resolve_dependencies name s = (None, s1)"
      "map fst (all_symbols s1) = map fst (all_symbols s)"
      "\<And>k. edges s1 k = (if k = name then Some (map (resolved s) (depends_on a), selects a)
                          else edges s k)"
    by blast
  from s1(3) [of name] obtain a1 where a1: "lookup s1 name = Some a1"
      "depends_on a1 = map (resolved s) (depends_on a)" "selects a1 = selects a"
    by (auto simp: edges_def)
  from resolve_selects_result [OF a1(1)]
  obtain s2 where s2: "resolve_selects name s1 = (None, s2)"
      "map fst (all_symbols s2) = map fst (all_symbols s1)"
      "\<And>k. edges s2 k = (if k = name then Some (depends_on a1, map (resolved s1) (selects a1))
                          else edges s1 k)"
    by blast
  have r1: "resolved s1 = resolved s" using s1(2) by (rule resolved_cong)
  have keys2: "map fst (all_symbols s2) = map fst (all_symbols s)" using s1(2) s2(2) by simp
  have r2: "resolved s2 = resolved s" using keys2 by (rule resolved_cong)
  have same: "edges s2 k = edges s k" if "k \<noteq> name" for k
    using that s1(3) [of k] s2(3) [of k] by simp
  have pre: "\<forall>k\<in>set names. \<exists>b. lookup s2 k = Some b \<and>
           (\<forall>v\<in>set (depends_on b). \<exists>n. v = Str n \<and> lookup s2 n \<noteq> None)"
  proof
    fix k assume k: "k \<in> set names"
    with Cons.prems(1) have ne: "k \<noteq> name" by auto
    from Cons.prems(2) k obtain b where b: "lookup s k = Some b"
        "\<forall>v\<in>set (depends_on b). \<exists>n. v = Str n \<and> lookup s n \<noteq> None" by auto
    from same [OF ne] b(1) obtain b2 where b2: "lookup s2 k = Some b2" "depends_on b2 = depends_on b"
      by (auto simp: edges_def)
    have "lookup s2 n \<noteq> None \<longleftrightarrow> lookup s n \<noteq> None" for n
      by (simp add: lookup_None_iff same_keys [OF keys2])
    with b b2 show "\<exists>b. lookup s2 k = Some b \<and>
           (\<forall>v\<in>set (depends_on b). \<exists>n. v = Str n \<and> lookup s2 n \<noteq> None)" by auto
  qed
  from Cons.prems(1) have "distinct names" by simp
  from Cons.IH [OF this pre]
  obtain s' where s': "resolve_symbols_loop names s2 = (None, s')"
      "map fst (all_symbols s') = map fst (all_symbols s2)"
      "\<And>k. edges s' k =
         (if k \<in> set names
          then map_option (\<lambda>(d, e). (map (resolved s2) d, map (resolved s2) e)) (edges s2 k)
          else edges s2 k)"
    by blast
  have run: "resolve_symbols_loop (name # names) s = (None, s')"
    using s1(1) s2(1) s'(1) by simp
  have fin: "edges s' k =
         (if k \<in> set (name # names)
          then map_option (\<lambda>(d, e). (map (resolved s) d, map (resolved s) e)) (edges s k)
          else edges s k)" for k
  proof (cases "k = name")
    case True
    with Cons.prems(1) have "k \<notin> set names" by auto
    with s'(3) [of k] s2(3) [of k] True a a1 r1 show ?thesis
      by (simp add: edges_def)
  next
    case False
    with s'(3) [of k] same [OF False] r2 show ?thesis by simp
  qed
  have keys': "map fst (all_symbols s') = map fst (all_symbols s)"
    using s'(2) keys2 by simp
  show ?case
    by (intro exI [of _ s'] conjI allI run keys' fin)
qed

text \<open>
  Claim C4, as the code has it. When the keys of the table are distinct and every
  entry of every \<open>depends_on\<close> is a name of the table, \<open>resolve_symbols\<close> ends normally
  and replaces each entry of \<open>depends_on\<close> and of \<open>selects\<close>, in place, by what
  \<open>get_symbol\<close> returns for it. No edge is dropped. A symbol's own name is a name of
  the table like any other, so a self-dependency or self-select becomes a reference
  of the symbol to itself.
\<close>

theorem resolve_symbols_keeps_self_edges:
  assumes "distinct (map fst (all_symbols s))"
    and "\<forall>k a. lookup s k = Some a \<longrightarrow>
           (\<forall>v\<in>set (depends_on a). \<exists>n. v = Str n \<and> lookup s n \<noteq> None)"
  shows "\<exists>s'. resolve_symbols s = (None, s') \<and>
          (\<forall>k a. lookup s k = Some a \<longrightarrow>
             (\<exists>a'. lookup s' k = Some a' \<and>
                   depends_on a' = map (resolved s) (depends_on a) \<and>
                   selects a' = map (resolved s) (selects a) \<and>
                   resolved s (Str k) = Obj k \<and>
                   (Str k \<in> set (depends_on a) \<longrightarrow> Obj k \<in> set (depends_on a')) \<and>
                   (Str k \<in> set (selects a) \<longrightarrow> Obj k \<in> set (selects a'))))"
proof -
  have pre: "\<forall>k\<in>set (map fst (all_symbols s)). \<exists>a. lookup s k = Some a \<and>
           (\<forall>v\<in>set (depends_on a). \<exists>n. v = Str n \<and> lookup s n \<noteq> None)"
  proof
    fix k assume "k \<in> set (map fst (all_symbols s))"
    then obtain a where a: "lookup s k = Some a"
      using lookup_None_iff [of s k] by (cases "lookup s k") simp_all
    with assms(2) show "\<exists>a. lookup s k = Some a \<and>
           (\<forall>v\<in>set (depends_on a). \<exists>n. v = Str n \<and> lookup s n \<noteq> None)" by blast
  qed
  from resolve_symbols_loop_names [OF assms(1) pre]
  obtain s' where s': "resolve_symbols_loop (map fst (all_symbols s)) s = (None, s')"
      "\<And>k. edges s' k =
         (if k \<in> set (map fst (all_symbols s))
          then map_option (\<lambda>(d, e). (map (resolved s) d, map (resolved s) e)) (edges s k)
          else edges s k)"
    by blast
  have each: "\<exists>a'. lookup s' k = Some a' \<and>
                   depends_on a' = map (resolved s) (depends_on a) \<and>
                   selects a' = map (resolved s) (selects a) \<and>
                   resolved s (Str k) = Obj k \<and>
                   (Str k \<in> set (depends_on a) \<longrightarrow> Obj k \<in> set (depends_on a')) \<and>
                   (Str k \<in> set (selects a) \<longrightarrow> Obj k \<in> set (selects a'))"
    if a: "lookup s k = Some a" for k a
  proof -
    from a have k: "k \<in> set (map fst (all_symbols s))"
      using lookup_None_iff [of s k] by simp
    from s'(2) [of k] k a obtain a' where a': "lookup s' k = Some a'"
        "depends_on a' = map (resolved s) (depends_on a)"
        "selects a' = map (resolved s) (selects a)"
      by (auto simp: edges_def)
    have r: "resolved s (Str k) = Obj k" using a by (simp add: resolved_def get_symbol_def)
    have "Obj k \<in> set (depends_on a')" if "Str k \<in> set (depends_on a)"
      using that a'(2) r by force
    moreover have "Obj k \<in> set (selects a')" if "Str k \<in> set (selects a)"
      using that a'(3) r by force
    ultimately show ?thesis using a' r by blast
  qed
  have "resolve_symbols s = (None, s')"
    using s'(1) by (simp add: resolve_symbols_def)
  with each show ?thesis by blast
qed

theorem resolve_symbols_keeps_self_edges_witness:
  "distinct (map fst (all_symbols self_example)) \<and>
   lookup self_example ''A'' = Some self_A \<and>
   Str ''A'' \<in> set (depends_on self_A) \<and> Str ''A'' \<in> set (selects self_A) \<and>
   (\<exists>s' a'. resolve_symbols self_example = (None, s') \<and> lookup s' ''A'' = Some a' \<and>
            Obj ''A'' \<in> set (depends_on a') \<and> Obj ''A'' \<in> set (selects a'))"
proof -
  have d: "distinct (map fst (all_symbols self_example))"
    by (simp add: self_example_def)
  have a: "lookup self_example ''A'' = Some self_A"
    by (simp add: lookup_def self_example_def)
  have e: "Str ''A'' \<in> set (depends_on self_A)" "Str ''A'' \<in> set (selects self_A)"
    by (simp_all add: self_A_def)
  have "\<exists>n. v = Str n \<and> lookup self_example n \<noteq> None"
    if "lookup self_example k = Some b" and "v \<in> set (depends_on b)" for k b v
  proof -
    from that(1) have "b = self_A"
      by (simp add: lookup_def self_example_def split: if_splits)
    with that(2) have "v = Str ''A''" by (simp add: self_A_def)
    with a show ?thesis by simp
  qed
  then have n: "\<forall>k b. lookup self_example k = Some b \<longrightarrow>
           (\<forall>v\<in>set (depends_on b). \<exists>n. v = Str n \<and> lookup self_example n \<noteq> None)"
    by blast
  from resolve_symbols_keeps_self_edges [OF d n] a e d show ?thesis
    by blast
qed

text \<open>
  The claim as stated fails: for \<open>config A\<close> with \<open>depends on A\<close> and \<open>select A\<close>,
  resolution prints nothing and leaves \<open>A\<close> depending on and selecting itself.
\<close>

theorem resolve_symbols_self_reference_counterexample:
  "map_option depends_on (lookup self_example ''A'') = Some [Str ''A''] \<and>
   map_option selects (lookup self_example ''A'') = Some [Str ''A''] \<and>
   resolve_symbols self_example = (None, self_resolved) \<and>
   stdout self_resolved = [] \<and>
   map_option depends_on (lookup self_resolved ''A'') = Some [Obj ''A''] \<and>
   map_option selects (lookup self_resolved ''A'') = Some [Obj ''A'']"
  by code_simp


section \<open>The output file\<close>






end
